theory Spec2Isabelle
  imports Complex_Main "HOL-Library.Char_ord" "HOL-Library.List_Lexorder"
    "HOL-Library.Option_ord" "HOL-Library.Product_Lexorder" "HOL-Library.Multiset"
begin

section \<open>JavaScript values\<close>

text \<open>
  The server (\<^verbatim>\<open>server.js\<close>) receives parsed JSON and passes JavaScript values to
  prepared SQLite statements. A number is modelled as an exact rational, or one of the
  three special values; the rounding of IEEE doubles and the sign of zero are not modelled.
  Strings are lists of 8-bit characters, read as ASCII.
\<close>

datatype jsnum = Fin rat | NaN | PInf | NInf

datatype jv =
    JUndefined
  | JNull
  | JBool bool
  | JNum jsnum
  | JStr string
  | JArr "jv list"
  | JObj "(string \<times> jv) list"

datatype error = TypeError | SqliteConstraint

definition bind_err :: "error + 'a \<Rightarrow> ('a \<Rightarrow> error + 'b) \<Rightarrow> error + 'b" where
  "bind_err m f = (case m of Inl e \<Rightarrow> Inl e | Inr x \<Rightarrow> f x)"

text \<open>Truthiness, and \<^verbatim>\<open>a || b\<close>.\<close>

fun truthy :: "jv \<Rightarrow> bool" where
  "truthy JUndefined = False"
| "truthy JNull = False"
| "truthy (JBool b) = b"
| "truthy (JNum n) = (n \<noteq> Fin 0 \<and> n \<noteq> NaN)"
| "truthy (JStr s) = (s \<noteq> [])"
| "truthy (JArr xs) = True"
| "truthy (JObj kvs) = True"

definition js_or :: "jv \<Rightarrow> jv \<Rightarrow> jv" where
  "js_or a b = (if truthy a then a else b)"

text \<open>
  Reading a property \<^verbatim>\<open>v.k\<close>. On \<^verbatim>\<open>null\<close> and \<^verbatim>\<open>undefined\<close> the read throws a
  TypeError (\<open>nullish\<close>); on an object it is the own property or \<^verbatim>\<open>undefined\<close>; on any
  other value it is \<^verbatim>\<open>undefined\<close> for every property name this program reads (none of
  them is a property of a prototype). An object is the list of its own properties; of
  two entries with one key the first is the property.
\<close>

fun nullish :: "jv \<Rightarrow> bool" where
  "nullish JUndefined = True"
| "nullish JNull = True"
| "nullish _ = False"

fun js_get :: "jv \<Rightarrow> string \<Rightarrow> jv" where
  "js_get (JObj kvs) k = (case map_of kvs k of Some v \<Rightarrow> v | None \<Rightarrow> JUndefined)"
| "js_get _ k = JUndefined"

subsection \<open>Numeric coercion\<close>

text \<open>
  \<^verbatim>\<open>Number(s)\<close> on a string: white space is trimmed; the empty string is 0; then the
  text is a binary, octal or hexadecimal integer (\<^verbatim>\<open>0b\<close>, \<^verbatim>\<open>0o\<close>, \<^verbatim>\<open>0x\<close>, unsigned),
  or an optionally signed decimal literal with optional fraction and exponent, or
  \<^verbatim>\<open>Infinity\<close>; anything else is \<^verbatim>\<open>NaN\<close>.
\<close>

definition is_ws :: "char \<Rightarrow> bool" where
  "is_ws c = (c \<in> set [CHR 0x09, CHR 0x0A, CHR 0x0B, CHR 0x0C, CHR 0x0D, CHR '' ''])"

definition trim :: "string \<Rightarrow> string" where
  "trim s = rev (dropWhile is_ws (rev (dropWhile is_ws s)))"

definition digit_val :: "char \<Rightarrow> nat option" where
  "digit_val c =
     (let n = (of_char c :: nat) in
      if 48 \<le> n \<and> n \<le> 57 then Some (n - 48)
      else if 97 \<le> n \<and> n \<le> 102 then Some (n - 87)
      else if 65 \<le> n \<and> n \<le> 70 then Some (n - 55)
      else None)"

definition is_digit :: "char \<Rightarrow> bool" where
  "is_digit c = (48 \<le> (of_char c :: nat) \<and> (of_char c :: nat) \<le> 57)"

fun digits_val :: "nat \<Rightarrow> nat \<Rightarrow> string \<Rightarrow> nat option" where
  "digits_val b acc [] = Some acc"
| "digits_val b acc (c # cs) =
     (case digit_val c of
        None \<Rightarrow> None
      | Some d \<Rightarrow> if d < b then digits_val b (acc * b + d) cs else None)"

definition radix_digits :: "nat \<Rightarrow> string \<Rightarrow> nat option" where
  "radix_digits b s = (if s = [] then None else digits_val b 0 s)"

fun strip_sign :: "string \<Rightarrow> bool \<times> string" where
  "strip_sign [] = (False, [])"
| "strip_sign (c # cs) =
     (if c = CHR ''-'' then (True, cs)
      else if c = CHR ''+'' then (False, cs)
      else (False, c # cs))"

definition exponent_part :: "string \<Rightarrow> int option" where
  "exponent_part s =
     (case s of
        [] \<Rightarrow> Some 0
      | c # t \<Rightarrow>
          if c = CHR ''e'' \<or> c = CHR ''E'' then
            (case strip_sign t of
               (neg, u) \<Rightarrow>
                 map_option (\<lambda>n. if neg then - int n else int n) (radix_digits 10 u))
          else None)"

definition scale10 :: "rat \<Rightarrow> int \<Rightarrow> rat" where
  "scale10 x e = (if 0 \<le> e then x * 10 ^ nat e else x / 10 ^ nat (- e))"

definition unsigned_decimal :: "string \<Rightarrow> jsnum" where
  "unsigned_decimal s =
     (if s = ''Infinity'' then PInf
      else
        let ip = takeWhile is_digit s;
            r1 = dropWhile is_digit s;
            dot = (r1 \<noteq> [] \<and> hd r1 = CHR ''.'');
            fp = (if dot then takeWhile is_digit (tl r1) else []);
            r2 = (if dot then dropWhile is_digit (tl r1) else r1)
        in if ip = [] \<and> fp = [] then NaN
           else (case (digits_val 10 0 (ip @ fp), exponent_part r2) of
                   (Some m, Some e) \<Rightarrow> Fin (scale10 (of_nat m) (e - int (length fp)))
                 | _ \<Rightarrow> NaN))"

definition radix_of :: "char \<Rightarrow> nat" where
  "radix_of k =
     (if k = CHR ''x'' \<or> k = CHR ''X'' then 16
      else if k = CHR ''o'' \<or> k = CHR ''O'' then 8
      else if k = CHR ''b'' \<or> k = CHR ''B'' then 2
      else 0)"

definition non_decimal :: "string \<Rightarrow> jsnum option" where
  "non_decimal s =
     (case s of
        z # k # ds \<Rightarrow>
          if z = CHR ''0'' \<and> radix_of k \<noteq> 0 then
            Some (case radix_digits (radix_of k) ds of
                    Some n \<Rightarrow> Fin (of_nat n)
                  | None \<Rightarrow> NaN)
          else None
      | _ \<Rightarrow> None)"

fun negate :: "jsnum \<Rightarrow> jsnum" where
  "negate (Fin x) = Fin (- x)"
| "negate NaN = NaN"
| "negate PInf = NInf"
| "negate NInf = PInf"

definition string_to_number :: "string \<Rightarrow> jsnum" where
  "string_to_number s =
     (let t = trim s in
      if t = [] then Fin 0
      else (case non_decimal t of
              Some n \<Rightarrow> n
            | None \<Rightarrow>
                (case strip_sign t of
                   (neg, u) \<Rightarrow> if neg then negate (unsigned_decimal u) else unsigned_decimal u)))"

text \<open>
  \<^verbatim>\<open>Number(v)\<close> on any value. An array or object is first converted to a primitive.
  That conversion throws a TypeError when an object on the way has an own property
  \<^verbatim>\<open>toString\<close> (in parsed JSON it is never callable, and the inherited \<^verbatim>\<open>valueOf\<close>
  returns the object itself): \<open>str_throws\<close>. Otherwise an object becomes
  \<^verbatim>\<open>[object Object]\<close>, which is not a numeral, and an array becomes its elements joined
  by commas, \<^verbatim>\<open>null\<close> and \<^verbatim>\<open>undefined\<close> elements as the empty string: the empty array is
  0, a one-element array is the number of its element's string, and a longer one holds a
  comma and is \<^verbatim>\<open>NaN\<close>.
\<close>

fun str_throws :: "jv \<Rightarrow> bool" where
  "str_throws (JObj kvs) = (''toString'' \<in> set (map fst kvs))"
| "str_throws (JArr xs) = list_ex str_throws xs"
| "str_throws _ = False"

fun to_number :: "jv \<Rightarrow> jsnum" where
  "to_number JUndefined = NaN"
| "to_number JNull = Fin 0"
| "to_number (JBool b) = (if b then Fin 1 else Fin 0)"
| "to_number (JNum n) = n"
| "to_number (JStr s) = string_to_number s"
| "to_number (JObj kvs) = NaN"
| "to_number (JArr []) = Fin 0"
| "to_number (JArr [x]) =
     (case x of
        JUndefined \<Rightarrow> Fin 0
      | JNull \<Rightarrow> Fin 0
      | JBool b \<Rightarrow> NaN
      | _ \<Rightarrow> to_number x)"
| "to_number (JArr (x # y # zs)) = NaN"

definition Number_js :: "jv \<Rightarrow> error + jsnum" where
  "Number_js v = (if str_throws v then Inl TypeError else Inr (to_number v))"


section \<open>Storage: the schema of lines 35 to 70\<close>

text \<open>
  A row holds the JavaScript values the statement was given: the driver's conversions
  between JavaScript values and SQLite storage classes are not modelled, nor are I/O
  failures. A \<^verbatim>\<open>REAL\<close> or \<^verbatim>\<open>INTEGER\<close> cell holds a number or \<^verbatim>\<open>NULL\<close> (\<open>None\<close>);
  a \<^verbatim>\<open>TEXT\<close> cell holds the value bound to it.
\<close>

record log_row =
  log_rowid :: nat
  created_at :: jv
  date :: jv
  driver_name :: jv
  driver_email :: jv
  cc_email :: jv
  truck_num :: jv
  start_miles :: "jsnum option"
  end_miles :: "jsnum option"
  start_time :: jv
  end_time :: jv
  rate_mile :: "jsnum option"
  rate_hour :: "jsnum option"
  total_miles :: "jsnum option"
  total_time :: jv
  total_detention :: jv
  total_value_hours :: "jsnum option"
  gross_pay :: "jsnum option"

record stop_row =
  stop_rowid :: nat
  log_id :: nat
  stop_no :: "jsnum option"
  stop_type :: jv
  location :: jv
  arrive :: jv
  depart :: jv
  duration :: jv
  detention :: jv
  value_hours :: "jsnum option"
  grain_phase :: jv

text \<open>
  The database: the two tables in insertion order, and for each the largest row id ever
  assigned (\<^verbatim>\<open>AUTOINCREMENT\<close>).
\<close>

record db =
  logs :: "log_row list"
  stops :: "stop_row list"
  log_seq :: nat
  stop_seq :: nat

definition empty_db :: db where
  "empty_db = \<lparr>logs = [], stops = [], log_seq = 0, stop_seq = 0\<rparr>"

text \<open>
  \<^verbatim>\<open>INSERT INTO logs\<close> names every column but \<^verbatim>\<open>id\<close>: the engine assigns the next id,
  whatever the record given here holds in \<open>log_rowid\<close>. The result is the new database and
  \<^verbatim>\<open>lastInsertRowid\<close>.
\<close>

definition insLog_run :: "db \<Rightarrow> log_row \<Rightarrow> db \<times> nat" where
  "insLog_run d r =
     (let i = Suc (log_seq d)
      in (d\<lparr>logs := logs d @ [r\<lparr>log_rowid := i\<rparr>], log_seq := i\<rparr>, i))"

text \<open>
  \<^verbatim>\<open>INSERT INTO stops\<close>, under \<^verbatim>\<open>FOREIGN KEY (log_id) REFERENCES logs(id)\<close> (line 68).
  The driver, better-sqlite3, builds SQLite with foreign keys enforced by default, so no
  \<^verbatim>\<open>PRAGMA\<close> is needed: the insert fails when no log has the id.
\<close>

definition insStop_run :: "db \<Rightarrow> stop_row \<Rightarrow> error + db" where
  "insStop_run d r =
     (if log_id r \<in> set (map log_rowid (logs d)) then
        (let i = Suc (stop_seq d)
         in Inr (d\<lparr>stops := stops d @ [r\<lparr>stop_rowid := i\<rparr>], stop_seq := i\<rparr>))
      else Inl SqliteConstraint)"

text \<open>
  The program never deletes. The schema still says what a \<^verbatim>\<open>DELETE FROM logs WHERE id = i\<close>
  does: the action declared for the foreign key decides. \<^verbatim>\<open>ON DELETE CASCADE\<close> removes
  the log's stops with it; every other action leaves the stops in place or would store
  \<^verbatim>\<open>NULL\<close> in the \<^verbatim>\<open>NOT NULL\<close> column \<^verbatim>\<open>log_id\<close>, so the statement fails as soon as
  the log has a stop.
\<close>

datatype fk_action = NoAction | Restrict | SetNull | SetDefault | Cascade

definition stops_on_delete :: fk_action where
  "stops_on_delete = Cascade"

definition delete_log_with :: "fk_action \<Rightarrow> nat \<Rightarrow> db \<Rightarrow> error + db" where
  "delete_log_with act i d =
     (if act = Cascade then
        Inr (d\<lparr>logs := filter (\<lambda>l. log_rowid l \<noteq> i) (logs d),
               stops := filter (\<lambda>s. log_id s \<noteq> i) (stops d)\<rparr>)
      else if i \<in> set (map log_id (stops d)) then Inl SqliteConstraint
      else Inr (d\<lparr>logs := filter (\<lambda>l. log_rowid l \<noteq> i) (logs d)\<rparr>))"

definition delete_log :: "nat \<Rightarrow> db \<Rightarrow> error + db" where
  "delete_log i d = delete_log_with stops_on_delete i d"

text \<open>
  \<^verbatim>\<open>db.transaction(fn)\<close>: the function runs on the current database; when it throws,
  the database is rolled back to what it was and the exception is thrown again.
\<close>

definition transaction :: "(db \<Rightarrow> error + db) \<Rightarrow> db \<Rightarrow> (error + unit) \<times> db" where
  "transaction f d = (case f d of Inl e \<Rightarrow> (Inl e, d) | Inr d' \<Rightarrow> (Inr (), d'))"

section \<open>Ingestion: \<^verbatim>\<open>POST /api/logs\<close>, lines 86 to 135\<close>

definition text_arg :: "jv \<Rightarrow> string \<Rightarrow> jv" where
  "text_arg d k = js_or (js_get d k) (JStr [])"

definition num_arg :: "jv \<Rightarrow> string \<Rightarrow> error + jsnum" where
  "num_arg d k = Number_js (js_or (js_get d k) (JNum (Fin 0)))"

text \<open>
  The arguments of \<^verbatim>\<open>insLog.run\<close> (lines 91 to 109), evaluated in order; \<open>now\<close> is
  \<^verbatim>\<open>dayjs().toISOString()\<close> and \<open>today\<close> is \<^verbatim>\<open>dayjs().format("YYYY-MM-DD")\<close>.
\<close>

definition log_args :: "string \<Rightarrow> string \<Rightarrow> jv \<Rightarrow> error + log_row" where
  "log_args now today d =
     bind_err (num_arg d ''start_miles'') (\<lambda>sm.
     bind_err (num_arg d ''end_miles'') (\<lambda>em.
     bind_err (num_arg d ''rate_mile'') (\<lambda>rm.
     bind_err (num_arg d ''rate_hour'') (\<lambda>rh.
     bind_err (num_arg d ''total_miles'') (\<lambda>tm.
     bind_err (num_arg d ''total_value_hours'') (\<lambda>tv.
     bind_err (num_arg d ''gross_pay'') (\<lambda>gp.
     Inr \<lparr>log_rowid = 0,
          created_at = JStr now,
          date = js_or (js_get d ''date'') (JStr today),
          driver_name = text_arg d ''driver_name'',
          driver_email = text_arg d ''driver_email'',
          cc_email = text_arg d ''cc_email'',
          truck_num = text_arg d ''truck_num'',
          start_miles = Some sm,
          end_miles = Some em,
          start_time = text_arg d ''start_time'',
          end_time = text_arg d ''end_time'',
          rate_mile = Some rm,
          rate_hour = Some rh,
          total_miles = Some tm,
          total_time = text_arg d ''total_time'',
          total_detention = text_arg d ''total_detention'',
          total_value_hours = Some tv,
          gross_pay = Some gp\<rparr>)))))))"

text \<open>
  The arguments of \<^verbatim>\<open>insStop.run\<close> for one element \<open>s\<close> of \<^verbatim>\<open>rows\<close> (lines 118 to 129).
  Reading \<^verbatim>\<open>s.stop_no\<close> throws when \<open>s\<close> is \<^verbatim>\<open>null\<close>.
\<close>

definition value_hours_arg :: "jv \<Rightarrow> error + jsnum option" where
  "value_hours_arg s =
     (if js_get s ''value_hours'' = JStr [] then Inr None
      else bind_err (num_arg s ''value_hours'') (\<lambda>n. Inr (Some n)))"

definition stop_args :: "nat \<Rightarrow> jv \<Rightarrow> error + stop_row" where
  "stop_args logId s =
     (if nullish s then Inl TypeError
      else
        bind_err (num_arg s ''stop_no'') (\<lambda>sn.
        bind_err (value_hours_arg s) (\<lambda>vh.
        Inr \<lparr>stop_rowid = 0,
             log_id = logId,
             stop_no = Some sn,
             stop_type = text_arg s ''type'',
             location = text_arg s ''location'',
             arrive = text_arg s ''arrive'',
             depart = text_arg s ''depart'',
             duration = text_arg s ''duration'',
             detention = text_arg s ''detention'',
             value_hours = vh,
             grain_phase = text_arg s ''grain_phase''\<rparr>)))"

text \<open>The loop of lines 117 to 130: the first throw ends it.\<close>

fun insert_stops :: "nat \<Rightarrow> jv list \<Rightarrow> db \<Rightarrow> error + db" where
  "insert_stops logId [] d = Inr d"
| "insert_stops logId (s # rows) d =
     bind_err (stop_args logId s) (\<lambda>r.
     bind_err (insStop_run d r) (\<lambda>d'.
     insert_stops logId rows d'))"

definition stops_of :: "jv \<Rightarrow> jv list" where
  "stops_of d = (case js_get d ''stops'' of JArr xs \<Rightarrow> xs | _ \<Rightarrow> [])"

record response =
  ok :: bool
  resp_id :: nat

text \<open>
  The handler. \<open>body\<close> is \<^verbatim>\<open>req.body\<close>. The log is inserted by a statement of its own
  (line 91), outside the transaction of line 116, which holds the stop inserts only.
  The result is the response, or the exception that leaves the handler, and the database
  afterwards.
\<close>

definition post_api_logs :: "string \<Rightarrow> string \<Rightarrow> jv \<Rightarrow> db \<Rightarrow> (error + response) \<times> db" where
  "post_api_logs now today body db0 =
     (let d = js_or body (JObj [])
      in case log_args now today d of
           Inl e \<Rightarrow> (Inl e, db0)
         | Inr r \<Rightarrow>
             (case insLog_run db0 r of
                (db1, logId) \<Rightarrow>
                  (case transaction (insert_stops logId (stops_of d)) db1 of
                     (Inl e, db2) \<Rightarrow> (Inl e, db2)
                   | (Inr u, db2) \<Rightarrow> (Inr \<lparr>ok = True, resp_id = logId\<rparr>, db2))))"

section \<open>SQL on the two tables\<close>

text \<open>
  The storage class of a cell as a query sees it: a string is \<^verbatim>\<open>TEXT\<close>; the model reads
  every other value of a text column as \<^verbatim>\<open>NULL\<close>. Text compares byte by byte (the
  \<^verbatim>\<open>BINARY\<close> collation), and a comparison with \<^verbatim>\<open>NULL\<close> is not true.
\<close>

fun sql_text :: "jv \<Rightarrow> string option" where
  "sql_text (JStr s) = Some s"
| "sql_text _ = None"

definition sql_ge :: "jv \<Rightarrow> string \<Rightarrow> bool" where
  "sql_ge c p = (case sql_text c of Some s \<Rightarrow> p \<le> s | None \<Rightarrow> False)"

definition sql_le :: "jv \<Rightarrow> string \<Rightarrow> bool" where
  "sql_le c p = (case sql_text c of Some s \<Rightarrow> s \<le> p | None \<Rightarrow> False)"

text \<open>
  \<^verbatim>\<open>X LIKE P\<close>: in the pattern \<^verbatim>\<open>%\<close> matches any run of characters, also the empty one,
  \<^verbatim>\<open>_\<close> matches any one character, and every other character matches itself, ASCII
  letters without regard to case. The program gives no \<^verbatim>\<open>ESCAPE\<close>.
\<close>

definition lower :: "char \<Rightarrow> char" where
  "lower c =
     (let n = (of_char c :: nat) in if 65 \<le> n \<and> n \<le> 90 then char_of (n + 32) else c)"

fun like_match :: "string \<Rightarrow> string \<Rightarrow> bool" where
  "like_match [] s = (s = [])"
| "like_match (c # p) s =
     (if c = CHR ''%'' then
        (like_match p s \<or> (case s of [] \<Rightarrow> False | x # t \<Rightarrow> like_match (c # p) t))
      else
        (case s of
           [] \<Rightarrow> False
         | x # t \<Rightarrow> (c = CHR ''_'' \<or> lower c = lower x) \<and> like_match p t))"

definition sql_like :: "jv \<Rightarrow> string \<Rightarrow> bool" where
  "sql_like c p = (case sql_text c of Some s \<Rightarrow> like_match p s | None \<Rightarrow> False)"

text \<open>
  A \<^verbatim>\<open>WHERE\<close> clause is the list of fragments the handler pushed, joined by \<^verbatim>\<open>AND\<close>,
  with one positional parameter each. \<open>logs_clause\<close> gives their meaning on a row of
  \<^verbatim>\<open>logs\<close>, \<open>join_clause\<close> on a row of \<^verbatim>\<open>stops s JOIN logs l\<close>.
\<close>

definition logs_clause :: "string \<Rightarrow> string \<Rightarrow> log_row \<Rightarrow> bool" where
  "logs_clause c p r =
     (if c = ''date >= ?'' then sql_ge (date r) p
      else if c = ''date <= ?'' then sql_le (date r) p
      else if c = ''driver_name LIKE ?'' then sql_like (driver_name r) p
      else False)"

definition join_clause :: "string \<Rightarrow> string \<Rightarrow> stop_row \<times> log_row \<Rightarrow> bool" where
  "join_clause c p sl =
     (if c = ''l.date >= ?'' then sql_ge (date (snd sl)) p
      else if c = ''l.date <= ?'' then sql_le (date (snd sl)) p
      else if c = ''l.driver_name LIKE ?'' then sql_like (driver_name (snd sl)) p
      else False)"

definition eval_where :: "(string \<Rightarrow> string \<Rightarrow> 'r \<Rightarrow> bool) \<Rightarrow> string list \<times> string list \<Rightarrow> 'r \<Rightarrow> bool" where
  "eval_where sem wp r = list_all (\<lambda>(c, p). sem c p r) (zip (fst wp) (snd wp))"

text \<open>
  \<^verbatim>\<open>ORDER BY\<close>: a sort by the given order. Text sorts after \<^verbatim>\<open>NULL\<close>; a number sorts
  by value, after \<^verbatim>\<open>NULL\<close>. A \<^verbatim>\<open>NaN\<close> is no number SQLite can order: it sorts with
  \<^verbatim>\<open>NULL\<close>.
\<close>

fun insort_by :: "('a \<Rightarrow> 'a \<Rightarrow> bool) \<Rightarrow> 'a \<Rightarrow> 'a list \<Rightarrow> 'a list" where
  "insort_by le x [] = [x]"
| "insort_by le x (y # ys) = (if le x y then x # y # ys else y # insort_by le x ys)"

definition order_by :: "('a \<Rightarrow> 'a \<Rightarrow> bool) \<Rightarrow> 'a list \<Rightarrow> 'a list" where
  "order_by le xs = foldr (insort_by le) xs []"

fun num_key :: "jsnum option \<Rightarrow> nat \<times> rat" where
  "num_key None = (0, 0)"
| "num_key (Some NaN) = (0, 0)"
| "num_key (Some NInf) = (1, 0)"
| "num_key (Some (Fin x)) = (2, x)"
| "num_key (Some PInf) = (3, 0)"

definition date_id_asc :: "log_row \<Rightarrow> log_row \<Rightarrow> bool" where
  "date_id_asc a b = ((sql_text (date a), log_rowid a) \<le> (sql_text (date b), log_rowid b))"

definition date_id_desc :: "log_row \<Rightarrow> log_row \<Rightarrow> bool" where
  "date_id_desc a b = date_id_asc b a"

definition date_id_stop_asc :: "stop_row \<times> log_row \<Rightarrow> stop_row \<times> log_row \<Rightarrow> bool" where
  "date_id_stop_asc a b =
     ((sql_text (date (snd a)), log_rowid (snd a), num_key (stop_no (fst a)))
      \<le> (sql_text (date (snd b)), log_rowid (snd b), num_key (stop_no (fst b))))"

section \<open>The three read paths\<close>

text \<open>
  The query parameters \<^verbatim>\<open>from\<close>, \<^verbatim>\<open>to\<close> and \<^verbatim>\<open>driver\<close>: each is absent or a string.
  \<open>push_if\<close> is one line of the form
  \<^verbatim>\<open>if (q) { where.push(c); params.push(f(q)); }\<close>: an absent or empty \<open>q\<close> pushes nothing.
  The check \<^verbatim>\<open>requireAdmin\<close> before each handler is not modelled.
\<close>

record filters =
  q_from :: "string option"
  q_to :: "string option"
  q_driver :: "string option"

definition push_if :: "string option \<Rightarrow> string \<Rightarrow> (string \<Rightarrow> string) \<Rightarrow> string list \<times> string list \<Rightarrow> string list \<times> string list" where
  "push_if q c f wp =
     (case q of
        None \<Rightarrow> wp
      | Some v \<Rightarrow> if v = [] then wp else (fst wp @ [c], snd wp @ [f v]))"

definition wild :: "string \<Rightarrow> string" where
  "wild driver = ''%'' @ driver @ ''%''"

text \<open>\<^verbatim>\<open>GET /admin\<close>, lines 139 to 147.\<close>

definition admin_where :: "filters \<Rightarrow> string list \<times> string list" where
  "admin_where f =
     push_if (q_driver f) ''driver_name LIKE ?'' wild
       (push_if (q_to f) ''date <= ?'' id
         (push_if (q_from f) ''date >= ?'' id ([], [])))"

definition admin_rows :: "filters \<Rightarrow> db \<Rightarrow> log_row list" where
  "admin_rows f d = order_by date_id_desc (filter (eval_where logs_clause (admin_where f)) (logs d))"

text \<open>The statistics of lines 149 to 154; \<open>or_zero\<close> is \<^verbatim>\<open>x || 0\<close> on a numeric cell.\<close>

fun or_zero :: "jsnum option \<Rightarrow> jsnum" where
  "or_zero None = Fin 0"
| "or_zero (Some NaN) = Fin 0"
| "or_zero (Some n) = n"






subsection \<open>Exports\<close>

text \<open>
  An output row is an object: its labels with their values, in the order they were
  written. \<^verbatim>\<open>sendCsv\<close> (lines 164 to 171) gives the serializer the columns and then
  each row; the result is modelled as the header cells and the records' cells, before
  quoting.
\<close>

type_synonym out_row = "(string \<times> jv) list"

record csv =
  csv_header :: "string list"
  csv_records :: "jv list list"

definition object_keys :: "out_row \<Rightarrow> string list" where
  "object_keys obj = map fst obj"

definition first_keys :: "out_row list \<Rightarrow> string list" where
  "first_keys out = (case out of [] \<Rightarrow> object_keys [] | r # rest \<Rightarrow> object_keys r)"

definition sendCsv :: "out_row list \<Rightarrow> string list \<Rightarrow> csv" where
  "sendCsv rows columns =
     \<lparr>csv_header = columns,
      csv_records = map (\<lambda>r. map (\<lambda>c. js_get (JObj r) c) columns) rows\<rparr>"

text \<open>\<^verbatim>\<open>GET /admin/export/daily_logs.csv\<close>, lines 174 to 201.\<close>

definition logs_where :: "filters \<Rightarrow> string list \<times> string list" where
  "logs_where f =
     push_if (q_driver f) ''driver_name LIKE ?'' wild
       (push_if (q_to f) ''date <= ?'' id
         (push_if (q_from f) ''date >= ?'' id ([], [])))"

definition logs_rows :: "filters \<Rightarrow> db \<Rightarrow> log_row list" where
  "logs_rows f d = order_by date_id_asc (filter (eval_where logs_clause (logs_where f)) (logs d))"

definition num_or_zero :: "jsnum option \<Rightarrow> jv" where
  "num_or_zero c = JNum (or_zero c)"

definition text_or_empty :: "jv \<Rightarrow> jv" where
  "text_or_empty c = js_or c (JStr [])"

definition log_out :: "log_row \<Rightarrow> out_row" where
  "log_out r =
     [(''Date'', date r),
      (''Driver Name'', text_or_empty (driver_name r)),
      (''Driver Email'', text_or_empty (driver_email r)),
      (''Truck #'', text_or_empty (truck_num r)),
      (''Start Miles'', num_or_zero (start_miles r)),
      (''End Miles'', num_or_zero (end_miles r)),
      (''Start Time'', text_or_empty (start_time r)),
      (''End Time'', text_or_empty (end_time r)),
      (''Rate/Mile'', num_or_zero (rate_mile r)),
      (''Hourly Rate'', num_or_zero (rate_hour r)),
      (''Total Miles'', num_or_zero (total_miles r)),
      (''Total Time'', text_or_empty (total_time r)),
      (''Total Detention'', text_or_empty (total_detention r)),
      (''Total Value (hrs)'', num_or_zero (total_value_hours r)),
      (''Gross Pay'', num_or_zero (gross_pay r))]"

definition daily_logs_csv :: "filters \<Rightarrow> db \<Rightarrow> csv" where
  "daily_logs_csv f d =
     (let out = map log_out (logs_rows f d) in sendCsv out (first_keys out))"

text \<open>The header row the interface names for the log export.\<close>

definition log_labels :: "string list" where
  "log_labels =
     [''Date'', ''Driver Name'', ''Driver Email'', ''Truck #'', ''Start Miles'', ''End Miles'',
      ''Start Time'', ''End Time'', ''Rate/Mile'', ''Hourly Rate'', ''Total Miles'',
      ''Total Time'', ''Total Detention'', ''Total Value (hrs)'', ''Gross Pay'']"

text \<open>
  \<^verbatim>\<open>GET /admin/export/daily_stops.csv\<close>, lines 204 to 234. \<open>joined\<close> is
  \<^verbatim>\<open>stops s JOIN logs l ON l.id = s.log_id\<close>: a stop with its log.
\<close>

definition stops_where :: "filters \<Rightarrow> string list \<times> string list" where
  "stops_where f =
     push_if (q_driver f) ''l.driver_name LIKE ?'' wild
       (push_if (q_to f) ''l.date <= ?'' id
         (push_if (q_from f) ''l.date >= ?'' id ([], [])))"

definition joined :: "db \<Rightarrow> (stop_row \<times> log_row) list" where
  "joined d = concat (map (\<lambda>s. map (\<lambda>l. (s, l)) (filter (\<lambda>l. log_rowid l = log_id s) (logs d))) (stops d))"

definition stops_rows :: "filters \<Rightarrow> db \<Rightarrow> (stop_row \<times> log_row) list" where
  "stops_rows f d =
     order_by date_id_stop_asc (filter (eval_where join_clause (stops_where f)) (joined d))"

definition value_or_empty :: "jsnum option \<Rightarrow> jv" where
  "value_or_empty c = (case c of None \<Rightarrow> JStr [] | Some n \<Rightarrow> JNum n)"

definition stop_out :: "stop_row \<times> log_row \<Rightarrow> out_row" where
  "stop_out sl =
     [(''Date'', date (snd sl)),
      (''Driver Name'', text_or_empty (driver_name (snd sl))),
      (''Truck #'', text_or_empty (truck_num (snd sl))),
      (''Stop #'', num_or_zero (stop_no (fst sl))),
      (''Type'', text_or_empty (stop_type (fst sl))),
      (''Location'', text_or_empty (location (fst sl))),
      (''Arrive'', text_or_empty (arrive (fst sl))),
      (''Depart'', text_or_empty (depart (fst sl))),
      (''Duration'', text_or_empty (duration (fst sl))),
      (''Detention'', text_or_empty (detention (fst sl))),
      (''Value (hrs)'', value_or_empty (value_hours (fst sl))),
      (''Grain Phase'', text_or_empty (grain_phase (fst sl)))]"

definition daily_stops_csv :: "filters \<Rightarrow> db \<Rightarrow> csv" where
  "daily_stops_csv f d =
     (let out = map stop_out (stops_rows f d) in sendCsv out (first_keys out))"

section \<open>Notions the properties are stated with\<close>

text \<open>
  The state of the tables that the storage layer keeps: the ids of the logs differ from
  each other, none exceeds the last id assigned, and every stop names the id of a log.
\<close>

definition db_inv :: "db \<Rightarrow> bool" where
  "db_inv d =
     (distinct (map log_rowid (logs d)) \<and>
      list_all (\<lambda>l. log_rowid l \<le> log_seq d) (logs d) \<and>
      list_all (\<lambda>s. log_id s \<in> set (map log_rowid (logs d))) (stops d))"

text \<open>
  The databases the storage layer can be brought to, whatever the application does: the
  empty one, and what an insert that succeeds or the deletion of a log makes of one.
\<close>

inductive reachable :: "db \<Rightarrow> bool" where
  start: "reachable empty_db"
| ins_log: "reachable d \<Longrightarrow> reachable (fst (insLog_run d r))"
| ins_stop: "reachable d \<Longrightarrow> insStop_run d s = Inr d' \<Longrightarrow> reachable d'"
| del_log: "reachable d \<Longrightarrow> delete_log i d = Inr d' \<Longrightarrow> reachable d'"

text \<open>The fields of a log that take a number, and those that take the caller's text.\<close>

definition numeric_fields :: "(string \<times> (log_row \<Rightarrow> jsnum option)) list" where
  "numeric_fields =
     [(''start_miles'', start_miles), (''end_miles'', end_miles), (''rate_mile'', rate_mile),
      (''rate_hour'', rate_hour), (''total_miles'', total_miles),
      (''total_value_hours'', total_value_hours), (''gross_pay'', gross_pay)]"


text \<open>
  What the specification says of a stop's \<^verbatim>\<open>value_hours\<close>: \<^verbatim>\<open>NULL\<close> for the empty
  string, 0 when absent, the numeric coercion of the value otherwise. And: every other
  field of the stop is not \<^verbatim>\<open>NULL\<close>.
\<close>

definition value_hours_spec :: "jv \<Rightarrow> jsnum option" where
  "value_hours_spec v =
     (if v = JStr [] then None
      else if v = JUndefined then Some (Fin 0)
      else Some (to_number v))"

definition other_fields_not_null :: "stop_row \<Rightarrow> bool" where
  "other_fields_not_null r =
     (stop_no r \<noteq> None \<and> stop_type r \<noteq> JNull \<and> location r \<noteq> JNull \<and> arrive r \<noteq> JNull
      \<and> depart r \<noteq> JNull \<and> duration r \<noteq> JNull \<and> detention r \<noteq> JNull
      \<and> grain_phase r \<noteq> JNull)"

text \<open>
  What the specification says of the filters: each one that is present, and not empty,
  is one condition on the log; the conditions hold together.
\<close>

definition matches :: "filters \<Rightarrow> log_row \<Rightarrow> bool" where
  "matches f r =
     ((case q_from f of None \<Rightarrow> True | Some v \<Rightarrow> v = [] \<or> sql_ge (date r) v) \<and>
      (case q_to f of None \<Rightarrow> True | Some v \<Rightarrow> v = [] \<or> sql_le (date r) v) \<and>
      (case q_driver f of None \<Rightarrow> True
       | Some v \<Rightarrow> v = [] \<or> sql_like (driver_name r) (''%'' @ v @ ''%'')))"

definition no_filters :: filters where
  "no_filters = \<lparr>q_from = None, q_to = None, q_driver = None\<rparr>"




subsection \<open>Sample data\<close>

text \<open>
  Three submissions, dated 2024-01-03, 2024-01-01 and 2024-01-02, with 100, 0 and 50
  total miles; the second has no stops. \<open>sample_db\<close> is the database after them.
\<close>

definition now0 :: string where
  "now0 = ''2024-01-05T08:00:00.000Z''"

definition today0 :: string where
  "today0 = ''2024-01-05''"

definition payload_a :: jv where
  "payload_a =
     JObj [(''date'', JStr ''2024-01-03''), (''driver_name'', JStr ''Max Diaz''),
           (''total_miles'', JNum (Fin 100)),
           (''stops'', JArr [JObj [(''stop_no'', JNum (Fin 2)), (''value_hours'', JStr [])],
                             JObj [(''stop_no'', JStr ''1''), (''value_hours'', JStr ''2.5'')],
                             JObj []])]"

definition payload_b :: jv where
  "payload_b =
     JObj [(''date'', JStr ''2024-01-01''), (''driver_name'', JStr ''Ann''),
           (''total_miles'', JNum (Fin 0))]"

definition payload_c :: jv where
  "payload_c =
     JObj [(''date'', JStr ''2024-01-02''), (''driver_name'', JStr ''a%z''),
           (''total_miles'', JStr ''50''),
           (''stops'', JArr [JObj [(''stop_no'', JNum (Fin 1))]])]"

definition sample_db :: db where
  "sample_db =
     snd (post_api_logs now0 today0 payload_c
       (snd (post_api_logs now0 today0 payload_b
         (snd (post_api_logs now0 today0 payload_a empty_db)))))"

text \<open>A stop that names a log that does not exist.\<close>

definition orphan_stop :: stop_row where
  "orphan_stop =
     \<lparr>stop_rowid = 0, log_id = 7, stop_no = Some (Fin 1), stop_type = JStr [],
      location = JStr [], arrive = JStr [], depart = JStr [], duration = JStr [],
      detention = JStr [], value_hours = None, grain_phase = JStr []\<rparr>"

text \<open>A submission whose second stop is \<^verbatim>\<open>null\<close>.\<close>

definition payload_bad :: jv where
  "payload_bad =
     JObj [(''driver_name'', JStr ''Max Diaz''),
           (''stops'', JArr [JObj [(''stop_no'', JNum (Fin 1))], JNull])]"

section \<open>Properties of the storage layer\<close>

lemma db_inv_empty: "db_inv empty_db"
  by (simp add: db_inv_def empty_db_def)

lemma db_inv_insLog:
  assumes "db_inv d"
  shows "db_inv (fst (insLog_run d r))"
proof -
  have fresh: "Suc (log_seq d) \<notin> set (map log_rowid (logs d))"
    using assms by (fastforce simp: db_inv_def list_all_iff)
  show ?thesis
    using assms fresh
    by (auto simp: db_inv_def insLog_run_def Let_def list_all_iff)
qed

lemma db_inv_insStop:
  assumes "db_inv d" and "insStop_run d s = Inr d'"
  shows "db_inv d'"
  using assms
  by (auto simp: db_inv_def insStop_run_def Let_def list_all_iff split: if_splits)

lemma db_inv_delete:
  assumes "db_inv d" and "delete_log i d = Inr d'"
  shows "db_inv d'"
proof -
  have d': "d' = d\<lparr>logs := filter (\<lambda>l. log_rowid l \<noteq> i) (logs d),
                  stops := filter (\<lambda>s. log_id s \<noteq> i) (stops d)\<rparr>"
    using assms(2) by (simp add: delete_log_def delete_log_with_def stops_on_delete_def)
  show ?thesis
    using assms(1) unfolding d'
    by (auto simp: db_inv_def list_all_iff distinct_map_filter)
qed

lemma reachable_inv: "reachable d \<Longrightarrow> db_inv d"
  by (induction rule: reachable.induct)
     (auto intro: db_inv_empty db_inv_insLog db_inv_insStop db_inv_delete)

lemma unique_log:
  assumes "db_inv d" and "s \<in> set (stops d)"
  shows "\<exists>!l. l \<in> set (logs d) \<and> log_rowid l = log_id s"
proof -
  from assms obtain l where l: "l \<in> set (logs d)" "log_rowid l = log_id s"
    by (auto simp: db_inv_def list_all_iff)
  have "l' = l" if "l' \<in> set (logs d)" "log_rowid l' = log_id s" for l'
    using assms(1) l that by (auto simp: db_inv_def inj_on_def distinct_map)
  with l show ?thesis by blast
qed

lemma stop_ids_bounded:
  assumes "db_inv d" and "s \<in> set (stops d)"
  shows "log_id s \<le> log_seq d"
proof -
  from assms have "log_id s \<in> set (map log_rowid (logs d))"
    by (auto simp: db_inv_def list_all_iff)
  then obtain l where "l \<in> set (logs d)" and "log_rowid l = log_id s"
    by auto
  with assms(1) show ?thesis
    by (auto simp: db_inv_def list_all_iff)
qed

lemma reachable_insert_stops:
  "reachable d \<Longrightarrow> insert_stops i xs d = Inr d' \<Longrightarrow> reachable d'"
proof (induction xs arbitrary: d)
  case Nil
  then show ?case by simp
next
  case (Cons x xs)
  from Cons.prems(2) obtain r d1 where
    "insStop_run d r = Inr d1" and "insert_stops i xs d1 = Inr d'"
    by (auto simp: bind_err_def split: sum.splits)
  then show ?case
    using Cons.IH Cons.prems(1) reachable.ins_stop by blast
qed

section \<open>Properties of ingestion\<close>

text \<open>The three ways the handler ends.\<close>

lemma post_args_fail:
  assumes "log_args now today (js_or body (JObj [])) = Inl e"
  shows "post_api_logs now today body d = (Inl e, d)"
  using assms by (simp add: post_api_logs_def)

lemma post_stops_fail:
  assumes "log_args now today (js_or body (JObj [])) = Inr r"
    and "insert_stops (snd (insLog_run d r)) (stops_of (js_or body (JObj [])))
           (fst (insLog_run d r)) = Inl e"
  shows "post_api_logs now today body d = (Inl e, fst (insLog_run d r))"
  using assms by (simp add: post_api_logs_def transaction_def case_prod_unfold)

lemma post_success:
  assumes "log_args now today (js_or body (JObj [])) = Inr r"
    and "insert_stops (snd (insLog_run d r)) (stops_of (js_or body (JObj [])))
           (fst (insLog_run d r)) = Inr d2"
  shows "post_api_logs now today body d
           = (Inr \<lparr>ok = True, resp_id = snd (insLog_run d r)\<rparr>, d2)"
  using assms by (simp add: post_api_logs_def transaction_def case_prod_unfold)

lemma reachable_post:
  assumes "reachable d"
  shows "reachable (snd (post_api_logs now today body d))"
proof (cases "log_args now today (js_or body (JObj []))")
  case (Inl e)
  then show ?thesis
    using assms by (simp add: post_args_fail)
next
  case (Inr r)
  let ?d1 = "fst (insLog_run d r)"
  let ?i = "snd (insLog_run d r)"
  have r1: "reachable ?d1"
    by (rule reachable.ins_log [OF assms])
  show ?thesis
  proof (cases "insert_stops ?i (stops_of (js_or body (JObj []))) ?d1")
    case (Inl e)
    then show ?thesis
      using Inr r1 by (simp add: post_stops_fail)
  next
    case r2: (Inr d2)
    then have "reachable d2"
      using reachable_insert_stops r1 by blast
    then show ?thesis
      using Inr r2 by (simp add: post_success)
  qed
qed

lemma sample_db_eq:
  "sample_db =
     \<lparr>logs =
        [\<lparr>log_rowid = 1, created_at = JStr ''2024-01-05T08:00:00.000Z'',
          date = JStr ''2024-01-03'', driver_name = JStr ''Max Diaz'',
          driver_email = JStr [], cc_email = JStr [], truck_num = JStr [],
          start_miles = Some (Fin 0), end_miles = Some (Fin 0),
          start_time = JStr [], end_time = JStr [], rate_mile = Some (Fin 0),
          rate_hour = Some (Fin 0), total_miles = Some (Fin 100),
          total_time = JStr [], total_detention = JStr [],
          total_value_hours = Some (Fin 0), gross_pay = Some (Fin 0)\<rparr>,
         \<lparr>log_rowid = 2, created_at = JStr ''2024-01-05T08:00:00.000Z'',
          date = JStr ''2024-01-01'', driver_name = JStr ''Ann'',
          driver_email = JStr [], cc_email = JStr [], truck_num = JStr [],
          start_miles = Some (Fin 0), end_miles = Some (Fin 0),
          start_time = JStr [], end_time = JStr [], rate_mile = Some (Fin 0),
          rate_hour = Some (Fin 0), total_miles = Some (Fin 0),
          total_time = JStr [], total_detention = JStr [],
          total_value_hours = Some (Fin 0), gross_pay = Some (Fin 0)\<rparr>,
         \<lparr>log_rowid = 3, created_at = JStr ''2024-01-05T08:00:00.000Z'',
          date = JStr ''2024-01-02'', driver_name = JStr ''a%z'',
          driver_email = JStr [], cc_email = JStr [], truck_num = JStr [],
          start_miles = Some (Fin 0), end_miles = Some (Fin 0),
          start_time = JStr [], end_time = JStr [], rate_mile = Some (Fin 0),
          rate_hour = Some (Fin 0), total_miles = Some (Fin 50),
          total_time = JStr [], total_detention = JStr [],
          total_value_hours = Some (Fin 0), gross_pay = Some (Fin 0)\<rparr>],
      stops =
        [\<lparr>stop_rowid = 1, log_id = 1, stop_no = Some (Fin 2),
          stop_type = JStr [], location = JStr [], arrive = JStr [],
          depart = JStr [], duration = JStr [], detention = JStr [],
          value_hours = None, grain_phase = JStr []\<rparr>,
         \<lparr>stop_rowid = 2, log_id = 1, stop_no = Some (Fin 1),
          stop_type = JStr [], location = JStr [], arrive = JStr [],
          depart = JStr [], duration = JStr [], detention = JStr [],
          value_hours = Some (Fin (5 / 2)), grain_phase = JStr []\<rparr>,
         \<lparr>stop_rowid = 3, log_id = 1, stop_no = Some (Fin 0),
          stop_type = JStr [], location = JStr [], arrive = JStr [],
          depart = JStr [], duration = JStr [], detention = JStr [],
          value_hours = Some (Fin 0), grain_phase = JStr []\<rparr>,
         \<lparr>stop_rowid = 4, log_id = 3, stop_no = Some (Fin 1),
          stop_type = JStr [], location = JStr [], arrive = JStr [],
          depart = JStr [], duration = JStr [], detention = JStr [],
          value_hours = Some (Fin 0), grain_phase = JStr []\<rparr>],
      log_seq = 3, stop_seq = 4\<rparr>"
  by code_simp

lemma reachable_sample: "reachable sample_db"
  unfolding sample_db_def
  by (intro reachable_post reachable.start)

text \<open>
  C2. In every database the storage layer can be brought to, each stop has exactly one
  log whose id is the stop's \<open>log_id\<close>. The storage layer itself keeps this: an insert
  of a stop that names no existing log fails with a constraint error, an insert that
  succeeds keeps \<open>db_inv\<close>, and deleting a log succeeds and removes that log and exactly
  the stops that name it.
\<close>

theorem referential_integrity:
  assumes "reachable d"
  shows "(\<forall>s \<in> set (stops d). \<exists>!l. l \<in> set (logs d) \<and> log_rowid l = log_id s)
     \<and> (log_id s \<notin> set (map log_rowid (logs d)) \<longrightarrow> insStop_run d s = Inl SqliteConstraint)
     \<and> (\<forall>d'. insStop_run d s = Inr d' \<longrightarrow> db_inv d')
     \<and> (\<exists>d'. delete_log i d = Inr d' \<and> reachable d'
            \<and> logs d' = filter (\<lambda>l. log_rowid l \<noteq> i) (logs d)
            \<and> stops d' = filter (\<lambda>s. log_id s \<noteq> i) (stops d))
     \<and> reachable (snd (post_api_logs now today body d))"
proof -
  have inv: "db_inv d"
    by (rule reachable_inv [OF assms])
  have del: "delete_log i d = Inr (d\<lparr>logs := filter (\<lambda>l. log_rowid l \<noteq> i) (logs d),
                  stops := filter (\<lambda>s. log_id s \<noteq> i) (stops d)\<rparr>)"
    by (simp add: delete_log_def delete_log_with_def stops_on_delete_def)
  have c1: "\<forall>s \<in> set (stops d). \<exists>!l. l \<in> set (logs d) \<and> log_rowid l = log_id s"
    using inv unique_log by blast
  have c2: "log_id s \<notin> set (map log_rowid (logs d)) \<longrightarrow> insStop_run d s = Inl SqliteConstraint"
    by (simp add: insStop_run_def)
  have c3: "\<forall>d'. insStop_run d s = Inr d' \<longrightarrow> db_inv d'"
    using inv db_inv_insStop by blast
  have c4: "\<exists>d'. delete_log i d = Inr d' \<and> reachable d'
            \<and> logs d' = filter (\<lambda>l. log_rowid l \<noteq> i) (logs d)
            \<and> stops d' = filter (\<lambda>s. log_id s \<noteq> i) (stops d)"
    using reachable.del_log [OF assms del] del by auto
  have c5: "reachable (snd (post_api_logs now today body d))"
    by (rule reachable_post [OF assms])
  show ?thesis
    using c1 c2 c3 c4 c5 by blast
qed

theorem referential_integrity_witness:
  "reachable sample_db
   \<and> (\<exists>!l. l \<in> set (logs sample_db) \<and> log_rowid l = 3)
   \<and> insStop_run sample_db orphan_stop = Inl SqliteConstraint
   \<and> (\<exists>d'. delete_log 1 sample_db = Inr d'
          \<and> map log_rowid (logs d') = [2, 3] \<and> map log_id (stops d') = [3])"
proof -
  note ri = referential_integrity [OF reachable_sample, of orphan_stop 1 now0 today0 payload_b]
  have "last (stops sample_db) \<in> set (stops sample_db)"
    by (simp add: sample_db_eq)
  then have "\<exists>!l. l \<in> set (logs sample_db) \<and> log_rowid l = log_id (last (stops sample_db))"
    using ri by blast
  then have one: "\<exists>!l. l \<in> set (logs sample_db) \<and> log_rowid l = 3"
    by (simp add: sample_db_eq)
  have "log_id orphan_stop \<notin> set (map log_rowid (logs sample_db))"
    by (simp add: sample_db_eq orphan_stop_def)
  then have rejected: "insStop_run sample_db orphan_stop = Inl SqliteConstraint"
    using ri by blast
  from ri obtain d' where d': "delete_log 1 sample_db = Inr d'"
    "logs d' = filter (\<lambda>l. log_rowid l \<noteq> 1) (logs sample_db)"
    "stops d' = filter (\<lambda>s. log_id s \<noteq> 1) (stops sample_db)"
    by blast
  have "map log_rowid (logs d') = [2, 3]" and "map log_id (stops d') = [3]"
    unfolding d'(2,3) by (simp_all add: sample_db_eq)
  with d'(1) have cascade: "\<exists>d'. delete_log 1 sample_db = Inr d'
          \<and> map log_rowid (logs d') = [2, 3] \<and> map log_id (stops d') = [3]"
    by auto
  show ?thesis
    using reachable_sample one rejected cascade by simp
qed

text \<open>
  C1. The log is inserted before the transaction begins, and the transaction holds the
  stop inserts only. The submission \<open>payload_bad\<close>, whose second stop is \<^verbatim>\<open>null\<close>,
  ends in a TypeError: the first stop is rolled back, and the log stays in the table.
\<close>

theorem stop_failure_keeps_log:
  "post_api_logs now0 today0 payload_bad empty_db =
     (Inl TypeError,
      \<lparr>logs =
         [\<lparr>log_rowid = 1, created_at = JStr ''2024-01-05T08:00:00.000Z'',
           date = JStr ''2024-01-05'', driver_name = JStr ''Max Diaz'',
           driver_email = JStr [], cc_email = JStr [], truck_num = JStr [],
           start_miles = Some (Fin 0), end_miles = Some (Fin 0),
           start_time = JStr [], end_time = JStr [], rate_mile = Some (Fin 0),
           rate_hour = Some (Fin 0), total_miles = Some (Fin 0),
           total_time = JStr [], total_detention = JStr [],
           total_value_hours = Some (Fin 0), gross_pay = Some (Fin 0)\<rparr>],
       stops = [], log_seq = 1, stop_seq = 0\<rparr>)"
  by code_simp

text \<open>The same for every submission: when a stop insert fails, the log has been stored.\<close>

lemma log_survives_stop_failure:
  assumes "log_args now today (js_or body (JObj [])) = Inr r"
    and "insert_stops (Suc (log_seq d)) (stops_of (js_or body (JObj [])))
           (fst (insLog_run d r)) = Inl e"
  shows "post_api_logs now today body d
           = (Inl e, d\<lparr>logs := logs d @ [r\<lparr>log_rowid := Suc (log_seq d)\<rparr>],
                       log_seq := Suc (log_seq d)\<rparr>)"
proof -
  have i: "snd (insLog_run d r) = Suc (log_seq d)"
    by (simp add: insLog_run_def Let_def)
  have "post_api_logs now today body d = (Inl e, fst (insLog_run d r))"
    using post_stops_fail [OF assms(1)] assms(2) i by simp
  then show ?thesis
    by (simp add: insLog_run_def Let_def)
qed

subsection \<open>Coercion of the log's fields\<close>

lemma num_arg_absent: "js_get d k = JUndefined \<Longrightarrow> num_arg d k = Inr (Fin 0)"
  by (simp add: num_arg_def js_or_def Number_js_def)

lemma text_arg_absent: "js_get d k = JUndefined \<Longrightarrow> text_arg d k = JStr []"
  by (simp add: text_arg_def js_or_def)

lemma log_args_empty:
  "log_args now today (JObj []) =
     Inr \<lparr>log_rowid = 0, created_at = JStr now, date = JStr today,
          driver_name = JStr [], driver_email = JStr [], cc_email = JStr [],
          truck_num = JStr [], start_miles = Some (Fin 0), end_miles = Some (Fin 0),
          start_time = JStr [], end_time = JStr [], rate_mile = Some (Fin 0),
          rate_hour = Some (Fin 0), total_miles = Some (Fin 0), total_time = JStr [],
          total_detention = JStr [], total_value_hours = Some (Fin 0),
          gross_pay = Some (Fin 0)\<rparr>"
  by (simp add: log_args_def num_arg_absent text_arg_absent bind_err_def js_or_def)

text \<open>
  C7. Submitting the empty payload \<^verbatim>\<open>{}\<close> answers \<^verbatim>\<open>{ok: true, id}\<close> with the id of the
  new row and adds exactly one log: its numeric fields are 0, the text fields the caller
  may give are empty, its date is the current date and its creation time the current
  time. No stop is added, and in a database that satisfies \<open>db_inv\<close> no stop belongs to
  the new log.
\<close>

theorem empty_payload:
  "post_api_logs now today (JObj []) d =
     (Inr \<lparr>ok = True, resp_id = Suc (log_seq d)\<rparr>,
      d\<lparr>logs := logs d @
           [\<lparr>log_rowid = Suc (log_seq d), created_at = JStr now, date = JStr today,
             driver_name = JStr [], driver_email = JStr [], cc_email = JStr [],
             truck_num = JStr [], start_miles = Some (Fin 0), end_miles = Some (Fin 0),
             start_time = JStr [], end_time = JStr [], rate_mile = Some (Fin 0),
             rate_hour = Some (Fin 0), total_miles = Some (Fin 0), total_time = JStr [],
             total_detention = JStr [], total_value_hours = Some (Fin 0),
             gross_pay = Some (Fin 0)\<rparr>],
         log_seq := Suc (log_seq d)\<rparr>)
   \<and> (db_inv d \<longrightarrow>
        filter (\<lambda>s. log_id s = Suc (log_seq d))
          (stops (snd (post_api_logs now today (JObj []) d))) = [])"
proof -
  have no_stops: "stops_of (JObj []) = []"
    by (simp add: stops_of_def)
  have body: "js_or (JObj []) (JObj []) = JObj []"
    by (simp add: js_or_def)
  have result: "post_api_logs now today (JObj []) d =
     (Inr \<lparr>ok = True, resp_id = Suc (log_seq d)\<rparr>,
      d\<lparr>logs := logs d @
           [\<lparr>log_rowid = Suc (log_seq d), created_at = JStr now, date = JStr today,
             driver_name = JStr [], driver_email = JStr [], cc_email = JStr [],
             truck_num = JStr [], start_miles = Some (Fin 0), end_miles = Some (Fin 0),
             start_time = JStr [], end_time = JStr [], rate_mile = Some (Fin 0),
             rate_hour = Some (Fin 0), total_miles = Some (Fin 0), total_time = JStr [],
             total_detention = JStr [], total_value_hours = Some (Fin 0),
             gross_pay = Some (Fin 0)\<rparr>],
         log_seq := Suc (log_seq d)\<rparr>)"
    by (simp add: post_api_logs_def no_stops body log_args_empty insLog_run_def
        transaction_def Let_def)
  have fresh: "filter (\<lambda>s. log_id s = Suc (log_seq d)) (stops d) = []" if "db_inv d"
  proof -
    have "log_id s \<noteq> Suc (log_seq d)" if "s \<in> set (stops d)" for s
      using stop_ids_bounded [OF \<open>db_inv d\<close> that] by simp
    then show ?thesis
      by (auto simp: filter_empty_conv)
  qed
  show ?thesis
    using result fresh by simp
qed

theorem empty_payload_witness:
  "db_inv sample_db \<and>
   fst (post_api_logs now0 today0 (JObj []) sample_db) = Inr \<lparr>ok = True, resp_id = 4\<rparr> \<and>
   map date (logs (snd (post_api_logs now0 today0 (JObj []) sample_db)))
     = [JStr ''2024-01-03'', JStr ''2024-01-01'', JStr ''2024-01-02'', JStr ''2024-01-05''] \<and>
   filter (\<lambda>s. log_id s = 4) (stops (snd (post_api_logs now0 today0 (JObj []) sample_db))) = []"
proof -
  have inv: "db_inv sample_db"
    by (rule reachable_inv [OF reachable_sample])
  have seq: "Suc (log_seq sample_db) = 4"
    by (simp add: sample_db_eq)
  show ?thesis
    using empty_payload [of now0 today0 sample_db] inv seq
    by (simp add: sample_db_eq today0_def)
qed

lemma num_arg_eq:
  "num_arg d k =
     (if str_throws (js_get d k) then Inl TypeError
      else Inr (to_number (js_or (js_get d k) (JNum (Fin 0)))))"
proof -
  have "str_throws (js_or (js_get d k) (JNum (Fin 0))) = str_throws (js_get d k)"
    by (cases "js_get d k") (auto simp: js_or_def)
  then show ?thesis
    by (simp add: num_arg_def Number_js_def)
qed

lemma log_args_eq:
  "log_args now today d =
     (if list_ex (\<lambda>kf. str_throws (js_get d (fst kf))) numeric_fields then Inl TypeError
      else Inr \<lparr>log_rowid = 0,
          created_at = JStr now,
          date = js_or (js_get d ''date'') (JStr today),
          driver_name = text_arg d ''driver_name'',
          driver_email = text_arg d ''driver_email'',
          cc_email = text_arg d ''cc_email'',
          truck_num = text_arg d ''truck_num'',
          start_miles = Some (to_number (js_or (js_get d ''start_miles'') (JNum (Fin 0)))),
          end_miles = Some (to_number (js_or (js_get d ''end_miles'') (JNum (Fin 0)))),
          start_time = text_arg d ''start_time'',
          end_time = text_arg d ''end_time'',
          rate_mile = Some (to_number (js_or (js_get d ''rate_mile'') (JNum (Fin 0)))),
          rate_hour = Some (to_number (js_or (js_get d ''rate_hour'') (JNum (Fin 0)))),
          total_miles = Some (to_number (js_or (js_get d ''total_miles'') (JNum (Fin 0)))),
          total_time = text_arg d ''total_time'',
          total_detention = text_arg d ''total_detention'',
          total_value_hours = Some (to_number (js_or (js_get d ''total_value_hours'') (JNum (Fin 0)))),
          gross_pay = Some (to_number (js_or (js_get d ''gross_pay'') (JNum (Fin 0))))\<rparr>)"
  by (simp add: log_args_def num_arg_eq bind_err_def numeric_fields_def)

lemma log_args_returns:
  "(\<exists>r. log_args now today d = Inr r)
     = (\<not> list_ex (\<lambda>kf. str_throws (js_get d (fst kf))) numeric_fields)"
  by (simp add: log_args_eq)

lemma text_arg_not_null: "text_arg s k \<noteq> JNull"
  by (cases "js_get s k") (auto simp: text_arg_def js_or_def)

lemma coerce_or_zero:
  assumes "v \<noteq> JNum NaN" and "v \<noteq> JStr []"
  shows "to_number (js_or v (JNum (Fin 0))) = (if v = JUndefined then Fin 0 else to_number v)"
  using assms by (cases v) (auto simp: js_or_def)

lemma value_hours_arg_eq:
  assumes "value_hours_arg s = Inr vh" and "js_get s ''value_hours'' \<noteq> JNum NaN"
  shows "vh = value_hours_spec (js_get s ''value_hours'')"
proof (cases "js_get s ''value_hours'' = JStr []")
  case True
  then show ?thesis
    using assms(1) by (simp add: value_hours_arg_def value_hours_spec_def)
next
  case False
  then have "vh = Some (to_number (js_or (js_get s ''value_hours'') (JNum (Fin 0))))"
    using assms(1)
    by (auto simp: value_hours_arg_def num_arg_eq bind_err_def split: if_splits)
  then show ?thesis
    using False assms(2) by (simp add: coerce_or_zero value_hours_spec_def)
qed

lemma stop_args_fields:
  assumes "stop_args i s = Inr r"
  shows "other_fields_not_null r"
    and "log_id r = i"
    and "js_get s ''value_hours'' \<noteq> JNum NaN
           \<Longrightarrow> value_hours r = value_hours_spec (js_get s ''value_hours'')"
proof -
  from assms obtain sn vh where
    vh: "value_hours_arg s = Inr vh" and
    r: "r = \<lparr>stop_rowid = 0, log_id = i, stop_no = Some sn,
             stop_type = text_arg s ''type'', location = text_arg s ''location'',
             arrive = text_arg s ''arrive'', depart = text_arg s ''depart'',
             duration = text_arg s ''duration'', detention = text_arg s ''detention'',
             value_hours = vh, grain_phase = text_arg s ''grain_phase''\<rparr>"
    by (auto simp: stop_args_def bind_err_def split: if_splits sum.splits)
  show "other_fields_not_null r"
    by (simp add: r other_fields_not_null_def text_arg_not_null)
  show "log_id r = i"
    by (simp add: r)
  show "value_hours r = value_hours_spec (js_get s ''value_hours'')"
    if "js_get s ''value_hours'' \<noteq> JNum NaN"
    using value_hours_arg_eq [OF vh that] by (simp add: r)
qed






text \<open>A stop's arguments are computed unless the stop is \<^verbatim>\<open>null\<close> or a conversion throws.\<close>

lemma stop_args_returns:
  "(\<exists>r. stop_args i s = Inr r)
     = (\<not> nullish s \<and> \<not> str_throws (js_get s ''stop_no'')
        \<and> \<not> str_throws (js_get s ''value_hours''))"
  by (auto simp: stop_args_def value_hours_arg_def num_arg_eq bind_err_def)

text \<open>
  The handler answers exactly when no numeric input of the log and no stop number or
  value of a stop is an object that cannot be converted, and no stop is \<^verbatim>\<open>null\<close>.
\<close>

lemma insert_stops_returns:
  "i \<in> set (map log_rowid (logs d)) \<Longrightarrow>
     (\<exists>d'. insert_stops i xs d = Inr d') = list_all (\<lambda>s. \<exists>r. stop_args i s = Inr r) xs"
proof (induction xs arbitrary: d)
  case Nil
  then show ?case by simp
next
  case (Cons x xs)
  show ?case
  proof (cases "stop_args i x")
    case (Inl e)
    then show ?thesis by (simp add: bind_err_def)
  next
    case (Inr r)
    then have "log_id r = i"
      by (rule stop_args_fields(2))
    with Cons.prems obtain d1 where d1: "insStop_run d r = Inr d1" "logs d1 = logs d"
      by (auto simp: insStop_run_def Let_def)
    then have "(\<exists>d'. insert_stops i xs d1 = Inr d')
        = list_all (\<lambda>s. \<exists>r. stop_args i s = Inr r) xs"
      using Cons.IH [of d1] Cons.prems by simp
    then show ?thesis
      using Inr d1(1) by (simp add: bind_err_def)
  qed
qed

lemma post_returns:
  assumes "b = js_or body (JObj [])"
  shows "(\<exists>resp d'. post_api_logs now today body d = (Inr resp, d'))
     = (\<not> list_ex (\<lambda>kf. str_throws (js_get b (fst kf))) numeric_fields
        \<and> list_all (\<lambda>s. \<not> nullish s \<and> \<not> str_throws (js_get s ''stop_no'')
                        \<and> \<not> str_throws (js_get s ''value_hours'')) (stops_of b))"
proof (cases "log_args now today b")
  case (Inl e)
  then have "\<not> (\<exists>r. log_args now today b = Inr r)"
    by simp
  then have "list_ex (\<lambda>kf. str_throws (js_get b (fst kf))) numeric_fields"
    using log_args_returns by blast
  then show ?thesis
    using Inl assms by (simp add: post_args_fail)
next
  case (Inr r)
  then have ok: "\<not> list_ex (\<lambda>kf. str_throws (js_get b (fst kf))) numeric_fields"
    using log_args_returns by blast
  let ?d1 = "fst (insLog_run d r)"
  let ?i = "snd (insLog_run d r)"
  have "?i \<in> set (map log_rowid (logs ?d1))"
    by (simp add: insLog_run_def Let_def)
  then have iff: "(\<exists>d'. insert_stops ?i (stops_of b) ?d1 = Inr d')
      = list_all (\<lambda>s. \<exists>r. stop_args ?i s = Inr r) (stops_of b)"
    by (rule insert_stops_returns)
  show ?thesis
  proof (cases "insert_stops ?i (stops_of b) ?d1")
    case (Inl e)
    then have "post_api_logs now today body d = (Inl e, ?d1)"
      using post_stops_fail Inr assms by blast
    then show ?thesis
      using iff Inl ok by (simp add: stop_args_returns)
  next
    case r2: (Inr d2)
    then have "post_api_logs now today body d = (Inr \<lparr>ok = True, resp_id = ?i\<rparr>, d2)"
      using post_success Inr assms by blast
    then show ?thesis
      using iff r2 ok by (simp add: stop_args_returns)
  qed
qed



section \<open>Properties of the read paths\<close>

subsection \<open>The filter\<close>

lemma admin_where_matches: "eval_where logs_clause (admin_where f) r = matches f r"
  by (auto simp: eval_where_def admin_where_def push_if_def logs_clause_def matches_def wild_def
      split: option.splits)

lemma logs_where_matches: "eval_where logs_clause (logs_where f) r = matches f r"
  by (auto simp: eval_where_def logs_where_def push_if_def logs_clause_def matches_def wild_def
      split: option.splits)

lemma stops_where_matches: "eval_where join_clause (stops_where f) sl = matches f (snd sl)"
  by (auto simp: eval_where_def stops_where_def push_if_def join_clause_def matches_def wild_def
      split: option.splits)

lemma same_where: "logs_where f = admin_where f"
  by (simp add: logs_where_def admin_where_def)

lemma stops_where_prefix:
  "stops_where f = (map (\<lambda>c. ''l.'' @ c) (fst (admin_where f)), snd (admin_where f))"
  by (simp add: stops_where_def admin_where_def push_if_def split: option.splits)

lemma set_joined:
  "set (joined d) = {(s, l). s \<in> set (stops d) \<and> l \<in> set (logs d) \<and> log_rowid l = log_id s}"
  by (auto simp: joined_def)

subsection \<open>Sorting\<close>

lemma mset_insort_by: "mset (insort_by le x xs) = add_mset x (mset xs)"
  by (induction xs) auto

lemma mset_order_by: "mset (order_by le xs) = mset xs"
  by (induction xs) (auto simp: order_by_def mset_insort_by)

lemma set_order_by: "set (order_by le xs) = set xs"
  using mset_order_by [of le xs] by (metis set_mset_mset)

lemma sorted_insort_by:
  assumes total: "\<And>a b. le a b \<or> le b a"
    and trans: "\<And>a b c. le a b \<Longrightarrow> le b c \<Longrightarrow> le a c"
  shows "sorted_wrt le xs \<Longrightarrow> sorted_wrt le (insort_by le x xs)"
proof (induction xs)
  case Nil
  then show ?case by simp
next
  case (Cons y ys)
  show ?case
  proof (cases "le x y")
    case True
    then have "\<forall>z \<in> set ys. le x z"
      using Cons.prems trans by auto
    then show ?thesis
      using True Cons.prems by simp
  next
    case False
    then have "le y x"
      using total by blast
    moreover have "set (insort_by le x ys) = insert x (set ys)"
      using mset_insort_by [of le x ys] by (metis set_mset_mset set_mset_add_mset_insert)
    ultimately show ?thesis
      using False Cons by auto
  qed
qed

lemma sorted_order_by:
  assumes "\<And>a b. le a b \<or> le b a"
    and "\<And>a b c. le a b \<Longrightarrow> le b c \<Longrightarrow> le a c"
  shows "sorted_wrt le (order_by le xs)"
proof (induction xs)
  case Nil
  then show ?case by (simp add: order_by_def)
next
  case (Cons x xs)
  have "order_by le (x # xs) = insort_by le x (order_by le xs)"
    by (simp add: order_by_def)
  then show ?case
    using sorted_insort_by [of le "order_by le xs" x] assms Cons by simp
qed

lemma sorted_admin: "sorted_wrt date_id_desc (admin_rows f d)"
  unfolding admin_rows_def
  by (rule sorted_order_by) (auto simp: date_id_desc_def date_id_asc_def)

lemma sorted_logs: "sorted_wrt date_id_asc (logs_rows f d)"
  unfolding logs_rows_def
  by (rule sorted_order_by) (auto simp: date_id_asc_def)

lemma sorted_stops: "sorted_wrt date_id_stop_asc (stops_rows f d)"
  unfolding stops_rows_def
  by (rule sorted_order_by) (auto simp: date_id_stop_asc_def)

lemma desc_unfold:
  "date_id_desc a b =
     (sql_text (date b) < sql_text (date a)
      \<or> (sql_text (date a) = sql_text (date b) \<and> log_rowid b \<le> log_rowid a))"
  by (auto simp: date_id_desc_def date_id_asc_def)

lemma asc_unfold:
  "date_id_asc a b =
     (sql_text (date a) < sql_text (date b)
      \<or> (sql_text (date a) = sql_text (date b) \<and> log_rowid a \<le> log_rowid b))"
  by (auto simp: date_id_asc_def)

lemma stop_asc_unfold:
  "date_id_stop_asc a b =
     (sql_text (date (snd a)) < sql_text (date (snd b))
      \<or> (sql_text (date (snd a)) = sql_text (date (snd b))
          \<and> (log_rowid (snd a) < log_rowid (snd b)
              \<or> (log_rowid (snd a) = log_rowid (snd b)
                  \<and> num_key (stop_no (fst a)) \<le> num_key (stop_no (fst b))))))"
  by (auto simp: date_id_stop_asc_def)

text \<open>
  C3, as amended. The three handlers build the same conditions from the filters (the stop
  export writes them on the joined log \<open>l\<close>), and on a log they mean \<open>matches\<close>. The
  admin view and the log export return the same logs, the matching ones. The stop export
  returns the stops whose log matches, each with its log: so the logs it shows are the
  matching logs that have at least one stop.
\<close>

theorem filter_consistency:
  "logs_where f = admin_where f
   \<and> stops_where f = (map (\<lambda>c. ''l.'' @ c) (fst (admin_where f)), snd (admin_where f))
   \<and> eval_where logs_clause (admin_where f) l = matches f l
   \<and> eval_where join_clause (stops_where f) (s, l) = matches f l
   \<and> mset (logs_rows f d) = mset (admin_rows f d)
   \<and> set (admin_rows f d) = {l \<in> set (logs d). matches f l}
   \<and> set (stops_rows f d)
       = {(s, l). s \<in> set (stops d) \<and> l \<in> set (logs d) \<and> log_rowid l = log_id s \<and> matches f l}
   \<and> snd ` set (stops_rows f d)
       = {l \<in> set (admin_rows f d). \<exists>s \<in> set (stops d). log_id s = log_rowid l}"
proof -
  have a: "set (admin_rows f d) = {l \<in> set (logs d). matches f l}"
    by (auto simp: admin_rows_def set_order_by admin_where_matches)
  have m: "mset (logs_rows f d) = mset (admin_rows f d)"
    by (simp add: logs_rows_def admin_rows_def mset_order_by same_where)
  have s: "set (stops_rows f d)
       = {(s, l). s \<in> set (stops d) \<and> l \<in> set (logs d) \<and> log_rowid l = log_id s \<and> matches f l}"
    by (auto simp: stops_rows_def set_order_by stops_where_matches set_joined)
  have p: "snd ` set (stops_rows f d)
       = {l \<in> set (admin_rows f d). \<exists>s \<in> set (stops d). log_id s = log_rowid l}"
    unfolding s a by force
  have w: "eval_where join_clause (stops_where f) (s, l) = matches f l"
    by (simp add: stops_where_matches)
  show ?thesis
    using a m s p w same_where [of f] stops_where_prefix [of f] admin_where_matches [of f l]
    by blast
qed



text \<open>
  C3 as the specification states it fails on a log without stops: after the empty
  payload is submitted to the empty database, the admin view and the log export return
  the log, and the stop export returns nothing.
\<close>

theorem stop_export_omits_log_without_stops:
  "map log_rowid (admin_rows no_filters (snd (post_api_logs now0 today0 (JObj []) empty_db))) = [1]
   \<and> map log_rowid (logs_rows no_filters (snd (post_api_logs now0 today0 (JObj []) empty_db))) = [1]
   \<and> stops_rows no_filters (snd (post_api_logs now0 today0 (JObj []) empty_db)) = []"
  by code_simp

text \<open>
  C9. The admin view is sorted by date, latest first, and by id, largest first, among
  equal dates. Both exports are sorted by date and then id, smallest first, and the stop
  export by the stop number within a log. Each result holds exactly the rows the filter
  selects.
\<close>

theorem read_orders:
  "sorted_wrt (\<lambda>a b. sql_text (date b) < sql_text (date a)
        \<or> (sql_text (date a) = sql_text (date b) \<and> log_rowid b \<le> log_rowid a))
      (admin_rows f d)
   \<and> mset (admin_rows f d) = mset (filter (matches f) (logs d))
   \<and> sorted_wrt (\<lambda>a b. sql_text (date a) < sql_text (date b)
        \<or> (sql_text (date a) = sql_text (date b) \<and> log_rowid a \<le> log_rowid b))
      (logs_rows f d)
   \<and> mset (logs_rows f d) = mset (filter (matches f) (logs d))
   \<and> sorted_wrt (\<lambda>a b. sql_text (date (snd a)) < sql_text (date (snd b))
        \<or> (sql_text (date (snd a)) = sql_text (date (snd b))
            \<and> (log_rowid (snd a) < log_rowid (snd b)
                \<or> (log_rowid (snd a) = log_rowid (snd b)
                    \<and> num_key (stop_no (fst a)) \<le> num_key (stop_no (fst b))))))
      (stops_rows f d)
   \<and> mset (stops_rows f d) = mset (filter (\<lambda>sl. matches f (snd sl)) (joined d))"
proof -
  have a: "mset (admin_rows f d) = mset (filter (matches f) (logs d))"
    by (simp add: admin_rows_def mset_order_by admin_where_matches)
  have l: "mset (logs_rows f d) = mset (filter (matches f) (logs d))"
    by (simp add: logs_rows_def mset_order_by logs_where_matches)
  have s: "mset (stops_rows f d) = mset (filter (\<lambda>sl. matches f (snd sl)) (joined d))"
    by (simp add: stops_rows_def mset_order_by stops_where_matches)
  show ?thesis
    using sorted_admin [of f d] sorted_logs [of f d] sorted_stops [of f d] a l s
    unfolding desc_unfold asc_unfold stop_asc_unfold by simp
qed


theorem read_orders_witness:
  "sorted_wrt (\<lambda>a b. sql_text (date b) < sql_text (date a)
        \<or> (sql_text (date a) = sql_text (date b) \<and> log_rowid b \<le> log_rowid a))
      (admin_rows no_filters sample_db)
   \<and> map date (admin_rows no_filters sample_db)
       = [JStr ''2024-01-03'', JStr ''2024-01-02'', JStr ''2024-01-01'']
   \<and> map date (logs_rows no_filters sample_db)
       = [JStr ''2024-01-01'', JStr ''2024-01-02'', JStr ''2024-01-03'']
   \<and> map (\<lambda>sl. (log_rowid (snd sl), stop_no (fst sl))) (stops_rows no_filters sample_db)
       = [(3, Some (Fin 1)), (1, Some (Fin 0)), (1, Some (Fin 1)), (1, Some (Fin 2))]"
proof -
  have a: "map date (admin_rows no_filters sample_db)
       = [JStr ''2024-01-03'', JStr ''2024-01-02'', JStr ''2024-01-01'']"
    by code_simp
  have l: "map date (logs_rows no_filters sample_db)
       = [JStr ''2024-01-01'', JStr ''2024-01-02'', JStr ''2024-01-03'']"
    by code_simp
  have s: "map (\<lambda>sl. (log_rowid (snd sl), stop_no (fst sl))) (stops_rows no_filters sample_db)
       = [(3, Some (Fin 1)), (1, Some (Fin 0)), (1, Some (Fin 1)), (1, Some (Fin 2))]"
    by code_simp
  show ?thesis
    using read_orders [of no_filters sample_db] a l s by blast
qed

subsection \<open>Statistics\<close>










subsection \<open>The driver filter\<close>

lemma like_percent:
  "like_match (CHR ''%'' # p) s = (\<exists>u v. s = u @ v \<and> like_match p v)"
proof (induction s)
  case Nil
  then show ?case by simp
next
  case (Cons x t)
  have "like_match (CHR ''%'' # p) (x # t)
          = (like_match p (x # t) \<or> like_match (CHR ''%'' # p) t)"
    by simp
  also have "\<dots> = (like_match p (x # t) \<or> (\<exists>u v. t = u @ v \<and> like_match p v))"
    using Cons.IH by simp
  also have "\<dots> = (\<exists>u v. x # t = u @ v \<and> like_match p v)"
  proof
    assume "like_match p (x # t) \<or> (\<exists>u v. t = u @ v \<and> like_match p v)"
    then show "\<exists>u v. x # t = u @ v \<and> like_match p v"
    proof
      assume "like_match p (x # t)"
      then have "x # t = [] @ (x # t) \<and> like_match p (x # t)" by simp
      then show ?thesis by blast
    next
      assume "\<exists>u v. t = u @ v \<and> like_match p v"
      then obtain u v where "t = u @ v" "like_match p v" by blast
      then have "x # t = (x # u) @ v \<and> like_match p v" by simp
      then show ?thesis by blast
    qed
  next
    assume "\<exists>u v. x # t = u @ v \<and> like_match p v"
    then obtain u v where uv: "x # t = u @ v" "like_match p v" by blast
    show "like_match p (x # t) \<or> (\<exists>u v. t = u @ v \<and> like_match p v)"
    proof (cases u)
      case Nil
      then show ?thesis using uv by simp
    next
      case (Cons y u')
      then have "t = u' @ v" using uv(1) by simp
      then show ?thesis using uv(2) by blast
    qed
  qed
  finally show ?case .
qed

lemma like_underscore:
  "like_match (CHR ''_'' # p) s = (\<exists>x t. s = x # t \<and> like_match p t)"
  by (cases s) auto

lemma like_char:
  "c \<noteq> CHR ''%'' \<Longrightarrow> c \<noteq> CHR ''_'' \<Longrightarrow>
     like_match (c # p) s = (\<exists>x t. s = x # t \<and> lower c = lower x \<and> like_match p t)"
  by (cases s) auto

lemma like_trailing_percent:
  "like_match (p @ ''%'') s = (\<exists>u v. s = u @ v \<and> like_match p u)"
proof (induction p arbitrary: s)
  case Nil
  have "like_match ''%'' s"
    using like_percent [of "[]" s] by simp
  then show ?case by simp
next
  case (Cons c p)
  consider (percent) "c = CHR ''%''" | (underscore) "c = CHR ''_''"
    | (other) "c \<noteq> CHR ''%''" "c \<noteq> CHR ''_''"
    by blast
  then show ?case
  proof cases
    case percent
    have "like_match ((c # p) @ ''%'') s
        = (\<exists>u v. s = u @ v \<and> (\<exists>v1 v2. v = v1 @ v2 \<and> like_match p v1))"
      by (simp only: percent append_Cons like_percent Cons.IH)
    also have "\<dots> = (\<exists>a b. s = a @ b \<and> (\<exists>u v1. a = u @ v1 \<and> like_match p v1))"
      by (metis append.assoc)
    also have "\<dots> = (\<exists>a b. s = a @ b \<and> like_match (c # p) a)"
      by (simp only: percent like_percent)
    finally show ?thesis .
  next
    case underscore
    have "like_match ((c # p) @ ''%'') s
        = (\<exists>x t. s = x # t \<and> (\<exists>u v. t = u @ v \<and> like_match p u))"
      by (simp only: underscore append_Cons like_underscore Cons.IH)
    also have "\<dots> = (\<exists>a b. s = a @ b \<and> (\<exists>x t. a = x # t \<and> like_match p t))"
      by (metis append_Cons)
    also have "\<dots> = (\<exists>a b. s = a @ b \<and> like_match (c # p) a)"
      by (simp only: underscore like_underscore)
    finally show ?thesis .
  next
    case other
    have "like_match ((c # p) @ ''%'') s
        = (\<exists>x t. s = x # t \<and> lower c = lower x \<and> (\<exists>u v. t = u @ v \<and> like_match p u))"
      by (simp only: append_Cons like_char [OF other] Cons.IH)
    also have "\<dots> = (\<exists>a b. s = a @ b \<and> (\<exists>x t. a = x # t \<and> lower c = lower x \<and> like_match p t))"
      by (metis append_Cons)
    also have "\<dots> = (\<exists>a b. s = a @ b \<and> like_match (c # p) a)"
      by (simp only: like_char [OF other])
    finally show ?thesis .
  qed
qed

lemma like_wild:
  "like_match (wild driver) name = (\<exists>u v w. name = u @ v @ w \<and> like_match driver v)"
proof -
  have "like_match (wild driver) name = (\<exists>u t. name = u @ t \<and> like_match (driver @ ''%'') t)"
    using like_percent [of "driver @ ''%''" name] by (simp add: wild_def)
  also have "\<dots> = (\<exists>u t. name = u @ t \<and> (\<exists>v w. t = v @ w \<and> like_match driver v))"
    by (simp add: like_trailing_percent)
  also have "\<dots> = (\<exists>u v w. name = u @ v @ w \<and> like_match driver v)"
    by blast
  finally show ?thesis .
qed

lemma lower_a: "lower CHR ''a'' = CHR ''a''" and lower_z: "lower CHR ''z'' = CHR ''z''"
  by (simp_all add: lower_def)

lemma like_a_percent_z:
  "like_match ''a%z'' v
     = (\<exists>a t z. v = a # t @ [z] \<and> lower a = CHR ''a'' \<and> lower z = CHR ''z'')"
proof -
  have z: "like_match ''z'' s = (\<exists>z. s = [z] \<and> lower z = CHR ''z'')" for s
    by (cases s) (auto simp: lower_z)
  have "like_match ''a%z'' v = (\<exists>a s. v = a # s \<and> lower a = CHR ''a'' \<and> like_match ''%z'' s)"
    using like_char [of "CHR ''a''" "''%z''" v] by (auto simp: lower_a)
  also have "\<dots> = (\<exists>a s. v = a # s \<and> lower a = CHR ''a''
        \<and> (\<exists>t z. s = t @ [z] \<and> lower z = CHR ''z''))"
    unfolding like_percent z by blast
  also have "\<dots> = (\<exists>a t z. v = a # t @ [z] \<and> lower a = CHR ''a'' \<and> lower z = CHR ''z'')"
    by blast
  finally show ?thesis .
qed

lemma matches_driver:
  assumes "q_driver f = Some driver" and "driver \<noteq> []"
  shows "matches f r
     = (matches (f\<lparr>q_driver := None\<rparr>) r \<and> sql_like (driver_name r) (''%'' @ driver @ ''%''))"
  using assms by (simp add: matches_def)

lemma sql_like_wild:
  "sql_like (JStr name) (''%'' @ driver @ ''%'')
     = (\<exists>u v w. name = u @ v @ w \<and> like_match driver v)"
  using like_wild [of driver name] by (simp add: sql_like_def wild_def)

text \<open>
  C10. A driver filter that is not empty adds to each of the three queries the
  condition \<^verbatim>\<open>driver_name LIKE '%' + driver + '%'\<close>. It holds when some part of the name
  matches the filter read as a pattern: a \<^verbatim>\<open>%\<close> in the filter stands for any run of
  characters and a \<^verbatim>\<open>_\<close> for any one character, and letters match without regard to
  case. So the filter \<^verbatim>\<open>a%z\<close> selects every name with an \<^verbatim>\<open>a\<close> somewhere before a
  \<^verbatim>\<open>z\<close>.
\<close>

theorem driver_filter_wildcards:
  assumes "q_driver f = Some driver" and "driver \<noteq> []"
  shows "eval_where logs_clause (admin_where f) r
       = (matches (f\<lparr>q_driver := None\<rparr>) r \<and> sql_like (driver_name r) (''%'' @ driver @ ''%''))
     \<and> eval_where logs_clause (logs_where f) r
       = (matches (f\<lparr>q_driver := None\<rparr>) r \<and> sql_like (driver_name r) (''%'' @ driver @ ''%''))
     \<and> eval_where join_clause (stops_where f) (s, r)
       = (matches (f\<lparr>q_driver := None\<rparr>) r \<and> sql_like (driver_name r) (''%'' @ driver @ ''%''))
     \<and> sql_like (JStr name) (''%'' @ driver @ ''%'')
       = (\<exists>u v w. name = u @ v @ w \<and> like_match driver v)
     \<and> like_match (CHR ''%'' # p) t = (\<exists>u v. t = u @ v \<and> like_match p v)
     \<and> like_match (CHR ''_'' # p) t = (\<exists>x v. t = x # v \<and> like_match p v)
     \<and> sql_like (JStr name) (''%'' @ ''a%z'' @ ''%'')
       = (\<exists>u a v z w. name = u @ a # v @ z # w \<and> lower a = CHR ''a'' \<and> lower z = CHR ''z'')"
proof -
  have a: "eval_where logs_clause (admin_where f) r
       = (matches (f\<lparr>q_driver := None\<rparr>) r \<and> sql_like (driver_name r) (''%'' @ driver @ ''%''))"
    by (simp only: admin_where_matches matches_driver [OF assms])
  have l: "eval_where logs_clause (logs_where f) r
       = (matches (f\<lparr>q_driver := None\<rparr>) r \<and> sql_like (driver_name r) (''%'' @ driver @ ''%''))"
    by (simp only: logs_where_matches matches_driver [OF assms])
  have j: "eval_where join_clause (stops_where f) (s, r)
       = (matches (f\<lparr>q_driver := None\<rparr>) r \<and> sql_like (driver_name r) (''%'' @ driver @ ''%''))"
    by (simp only: stops_where_matches snd_conv matches_driver [OF assms])
  have az: "sql_like (JStr name) (''%'' @ ''a%z'' @ ''%'')
       = (\<exists>u a v z w. name = u @ a # v @ z # w \<and> lower a = CHR ''a'' \<and> lower z = CHR ''z'')"
  proof -
    have "sql_like (JStr name) (''%'' @ ''a%z'' @ ''%'')
        = (\<exists>u v w. name = u @ v @ w
             \<and> (\<exists>a t z. v = a # t @ [z] \<and> lower a = CHR ''a'' \<and> lower z = CHR ''z''))"
      by (simp only: sql_like_wild like_a_percent_z)
    also have "\<dots> = (\<exists>u a v z w. name = u @ a # v @ z # w
        \<and> lower a = CHR ''a'' \<and> lower z = CHR ''z'')"
    proof
      assume "\<exists>u v w. name = u @ v @ w
             \<and> (\<exists>a t z. v = a # t @ [z] \<and> lower a = CHR ''a'' \<and> lower z = CHR ''z'')"
      then obtain u w a t z where "name = u @ (a # t @ [z]) @ w"
        "lower a = CHR ''a''" "lower z = CHR ''z''"
        by blast
      then have "name = u @ a # t @ z # w \<and> lower a = CHR ''a'' \<and> lower z = CHR ''z''"
        by simp
      then show "\<exists>u a v z w. name = u @ a # v @ z # w
        \<and> lower a = CHR ''a'' \<and> lower z = CHR ''z''"
        by blast
    next
      assume "\<exists>u a v z w. name = u @ a # v @ z # w
        \<and> lower a = CHR ''a'' \<and> lower z = CHR ''z''"
      then obtain u a v z w where "name = u @ a # v @ z # w"
        "lower a = CHR ''a''" "lower z = CHR ''z''"
        by blast
      then have "name = u @ (a # v @ [z]) @ w
          \<and> (\<exists>a' t z'. a # v @ [z] = a' # t @ [z'] \<and> lower a' = CHR ''a'' \<and> lower z' = CHR ''z'')"
        by simp
      then show "\<exists>u v w. name = u @ v @ w
             \<and> (\<exists>a t z. v = a # t @ [z] \<and> lower a = CHR ''a'' \<and> lower z = CHR ''z'')"
        by blast
    qed
    finally show ?thesis .
  qed
  show ?thesis
    using a l j az sql_like_wild [of name driver] like_percent [of p t] like_underscore [of p t]
    by blast
qed

theorem driver_filter_wildcards_witness:
  "map driver_name (admin_rows \<lparr>q_from = None, q_to = None, q_driver = Some ''a%z''\<rparr> sample_db)
     = [JStr ''Max Diaz'', JStr ''a%z'']
   \<and> sql_like (JStr ''Max Diaz'') (''%'' @ ''a%z'' @ ''%'')
   \<and> CHR ''%'' \<notin> set ''Max Diaz''"
proof -
  let ?f = "\<lparr>q_from = None, q_to = None, q_driver = Some ''a%z''\<rparr>"
  have rows: "map driver_name (admin_rows ?f sample_db) = [JStr ''Max Diaz'', JStr ''a%z'']"
    by code_simp
  have parts: "''Max Diaz'' = ''M'' @ CHR ''a'' # ''x Dia'' @ CHR ''z'' # []
      \<and> lower CHR ''a'' = CHR ''a'' \<and> lower CHR ''z'' = CHR ''z''"
    by (simp add: lower_def)
  have "q_driver ?f = Some ''a%z''" and "''a%z'' \<noteq> []"
    by simp_all
  from driver_filter_wildcards [OF this, of _ _ "''Max Diaz''"] parts
  have "sql_like (JStr ''Max Diaz'') (''%'' @ ''a%z'' @ ''%'')"
    by blast
  then show ?thesis
    using rows by simp
qed

subsection \<open>The header of the log export\<close>

lemma log_out_keys: "object_keys (log_out r) = log_labels"
  by (simp add: object_keys_def log_out_def log_labels_def)

lemma log_export_header:
  "csv_header (daily_logs_csv f d) = (if logs_rows f d = [] then [] else log_labels)"
proof (cases "logs_rows f d")
  case Nil
  then show ?thesis
    by (simp add: daily_logs_csv_def sendCsv_def first_keys_def object_keys_def)
next
  case (Cons r rest)
  then show ?thesis
    by (simp add: daily_logs_csv_def sendCsv_def first_keys_def log_out_keys)
qed

text \<open>
  C4. The columns are the keys of the first output row, and of the empty object when
  there is none. So the export of an empty table, and the export under a filter that
  selects nothing, have no column and an empty header, not the fifteen labels.
\<close>

theorem empty_export_has_no_header:
  "csv_header (daily_logs_csv no_filters empty_db) = []
   \<and> csv_header (daily_logs_csv \<lparr>q_from = Some ''2030-01-01'', q_to = None, q_driver = None\<rparr>
        sample_db) = []
   \<and> csv_header (daily_logs_csv no_filters sample_db) = log_labels"
  by code_simp

end
